theory Spec2Isabelle
  imports Main
begin

section \<open>The on-chain-to-graph projection of \<^verbatim>\<open>src/App.vue\<close>\<close>

text \<open>
  The script of \<^verbatim>\<open>App.vue\<close> reads a workflow from a contract and turns it into the
  \<^verbatim>\<open>nodes\<close> and \<^verbatim>\<open>edges\<close> arrays of a Vue Flow diagram (\<^verbatim>\<open>readOnchainData\<close>), marks
  the first and the terminal nodes (\<^verbatim>\<open>adjustView\<close>) and fits the viewport (\<^verbatim>\<open>onInit\<close>).
  The embedding below follows that code: the reactive arrays and the viewport are an
  explicit state record, a rejected promise and a thrown \<^verbatim>\<open>TypeError\<close> are values of
  \<open>error\<close>, and each \<^verbatim>\<open>for\<close> loop is a recursive function on its counter. The nodes
  that Vue Flow keeps and renders are a part of the state of their own: \<^verbatim>\<open>updateNode\<close>
  writes there, and they follow the \<^verbatim>\<open>nodes\<close> array one tick late.

  JavaScript numbers are modelled by \<open>int\<close>: the loop counters and the two counts are
  taken in the range where the arithmetic of doubles is exact (below \<open>2 ^ 53\<close>).
\<close>

subsection \<open>JavaScript values\<close>

text \<open>
  The values a decoded contract read can hold: booleans, numbers, bigints and strings;
  \<open>JUndefined\<close> is what indexing a tuple past its end gives.
\<close>

datatype jsval = JUndefined | JBool bool | JNum int | JBigInt int | JStr string

text \<open>
  \<open>RpcError\<close>: the promise of \<^verbatim>\<open>client.readContract\<close> rejects.
  \<open>TypeError\<close>: \<^verbatim>\<open>.toString()\<close> is called on \<^verbatim>\<open>undefined\<close>.
\<close>

datatype error = RpcError | TypeError

text \<open>\<^verbatim>\<open>t[k]\<close> on an array: \<^verbatim>\<open>undefined\<close> out of range.\<close>

definition js_index :: "jsval list \<Rightarrow> nat \<Rightarrow> jsval" where
  "js_index t k = (if k < length t then t ! k else JUndefined)"

definition digit_char :: "nat \<Rightarrow> char" where
  "digit_char d = char_of (48 + d)"

text \<open>The decimal digits of a natural number, most significant first.\<close>

function nat_toString :: "nat \<Rightarrow> string" where
  "nat_toString n =
     (if n < 10 then [digit_char n]
      else nat_toString (n div 10) @ [digit_char (n mod 10)])"
  by pat_completeness auto
termination
  by (relation "measure (\<lambda>n. n)") auto

text \<open>\<^verbatim>\<open>Number.prototype.toString()\<close> and \<^verbatim>\<open>BigInt.prototype.toString()\<close> on an integer.\<close>

definition int_toString :: "int \<Rightarrow> string" where
  "int_toString i =
     (if i < 0 then CHR ''-'' # nat_toString (nat (- i)) else nat_toString (nat i))"

text \<open>\<^verbatim>\<open>v.toString()\<close>: a property access, so it throws on \<^verbatim>\<open>undefined\<close>.\<close>

fun js_toString :: "jsval \<Rightarrow> error + string" where
  "js_toString JUndefined = Inl TypeError"
| "js_toString (JBool b) = Inr (if b then ''true'' else ''false'')"
| "js_toString (JNum n) = Inr (int_toString n)"
| "js_toString (JBigInt n) = Inr (int_toString n)"
| "js_toString (JStr s) = Inr s"

text \<open>\<^verbatim>\<open>Boolean(v)\<close>: the truthiness of a value.\<close>

fun js_Boolean :: "jsval \<Rightarrow> bool" where
  "js_Boolean JUndefined = False"
| "js_Boolean (JBool b) = b"
| "js_Boolean (JNum n) = (n \<noteq> 0)"
| "js_Boolean (JBigInt n) = (n \<noteq> 0)"
| "js_Boolean (JStr s) = (s \<noteq> [])"

subsection \<open>The graph\<close>

text \<open>
  A node as \<^verbatim>\<open>readOnchainData\<close> pushes it: \<^verbatim>\<open>id\<close>, \<^verbatim>\<open>data.label\<close>, \<^verbatim>\<open>position\<close> and
  \<^verbatim>\<open>class\<close>; \<^verbatim>\<open>type\<close> is absent (\<open>Default\<close>) until \<^verbatim>\<open>updateNode\<close> sets it to
  \<^verbatim>\<open>'input'\<close> or \<^verbatim>\<open>'output'\<close>.
\<close>

datatype role = Default | Input | Output

record position =
  pos_x :: int
  pos_y :: int

record node =
  node_id :: string
  data_label :: string
  node_position :: position
  node_class :: string
  node_type :: role

datatype MarkerType = Arrow | ArrowClosed

record edge =
  edge_id :: int
  edge_label :: jsval
  source :: string
  target :: string
  animated :: bool
  markerEnd :: MarkerType

text \<open>
  The state the script acts on: the two reactive arrays \<^verbatim>\<open>nodes.value\<close> and
  \<^verbatim>\<open>edges.value\<close> (lines 21 and 23), the nodes of the Vue Flow store, which are the
  nodes the diagram shows and the ones \<^verbatim>\<open>updateNode\<close> (line 18) looks up, and whether
  \<^verbatim>\<open>vueFlowInstance.fitView()\<close> has been called. The script never reads the edges of
  the store, so they are left out.
\<close>

record app =
  nodes :: "node list"
  edges :: "edge list"
  store :: "node list"
  fitViewCalled :: bool

definition init :: app where
  "init = \<lparr>nodes = [], edges = [], store = [], fitViewCalled = False\<rparr>"

text \<open>
  The template binds the array one way (\<^verbatim>\<open>:nodes="nodes"\<close>, line 170). The rendering
  library, which is not part of the sources, watches that prop; Vue runs the watcher
  not at the \<^verbatim>\<open>push\<close> but on the next tick, that is when the script next gives up
  control at an \<^verbatim>\<open>await\<close> or ends. The store then takes over the nodes of the array in
  their order: a node whose id the store already holds keeps the role it has there, a
  new one comes in with the default role.
\<close>

definition flush :: "app \<Rightarrow> app" where
  "flush s =
     s\<lparr>store :=
         map (\<lambda>n. case find (\<lambda>m. node_id m = node_id n) (store s) of
                   None \<Rightarrow> n
                 | Some m \<Rightarrow> n\<lparr>node_type := node_type m\<rparr>)
           (nodes s)\<rparr>"

subsection \<open>The contract client\<close>

text \<open>
  Modelled from the spec: the ABI \<^verbatim>\<open>WORKFLOW_ABI\<close> and the contract are not part of the
  sources. The client exposes the four reads the script issues; each resolves (\<open>Inr\<close>) or
  rejects (\<open>Inl\<close>). The two counters resolve to an integer, of which the field holds the
  value of \<^verbatim>\<open>Number(...)\<close>; a record read resolves to a tuple of raw values.
\<close>

record client =
  read_stateIndex :: "error + int"
  read_transitionIndex :: "error + int"
  read_states :: "int \<Rightarrow> error + jsval list"
  read_transitions :: "int \<Rightarrow> error + jsval list"

subsection \<open>\<^verbatim>\<open>readOnchainData\<close>\<close>

text \<open>
  The node literal of lines 111 to 116, with \<^verbatim>\<open>yPos\<close> already incremented:
  \<^verbatim>\<open>state[0].toString()\<close> may throw.
\<close>

definition make_node :: "int \<Rightarrow> jsval list \<Rightarrow> int \<Rightarrow> int \<Rightarrow> error + node" where
  "make_node stateIndex state xPos yPos =
     (case js_toString (js_index state 0) of
        Inl e \<Rightarrow> Inl e
      | Inr lbl \<Rightarrow>
          Inr \<lparr>node_id = int_toString stateIndex,
               data_label = lbl,
               node_position = \<lparr>pos_x = xPos, pos_y = yPos\<rparr>,
               node_class = ''light'',
               node_type = Default\<rparr>)"

text \<open>
  The first loop (lines 103 to 117). The result is the state reached and the error that
  ended the loop, if any: what was pushed before a failure stays in the array. At the
  \<^verbatim>\<open>await\<close> of an iteration the pending watcher runs (\<open>flush\<close>), so the store learns
  of a node only at the \<^verbatim>\<open>await\<close> after its \<^verbatim>\<open>push\<close>.
\<close>

function state_loop :: "client \<Rightarrow> int \<Rightarrow> int \<Rightarrow> int \<Rightarrow> int \<Rightarrow> app \<Rightarrow> app \<times> error option" where
  "state_loop c stateIndex states yPos xPos s =
     (if stateIndex < states then
        (case read_states c stateIndex of
           Inl e \<Rightarrow> (flush s, Some e)
         | Inr state \<Rightarrow>
             (case make_node stateIndex state xPos (yPos + 100) of
                Inl e \<Rightarrow> (flush s, Some e)
              | Inr nd \<Rightarrow>
                  state_loop c (stateIndex + 1) states (yPos + 100) xPos
                    ((flush s)\<lparr>nodes := nodes s @ [nd]\<rparr>)))
      else (s, None))"
  by pat_completeness auto
termination
  by (relation "measure (\<lambda>(c, stateIndex, states, yPos, xPos, s). nat (states - stateIndex))") auto

text \<open>
  The edge literal of lines 125 to 132: the two \<^verbatim>\<open>toString\<close> calls are evaluated in
  order and either may throw.
\<close>

definition make_edge :: "int \<Rightarrow> jsval list \<Rightarrow> error + edge" where
  "make_edge transitionIndex transition =
     (case js_toString (js_index transition 1) of
        Inl e \<Rightarrow> Inl e
      | Inr src \<Rightarrow>
          (case js_toString (js_index transition 2) of
             Inl e \<Rightarrow> Inl e
           | Inr tgt \<Rightarrow>
               Inr \<lparr>edge_id = transitionIndex,
                    edge_label = js_index transition 0,
                    source = src,
                    target = tgt,
                    animated = js_Boolean (js_index transition 3),
                    markerEnd = ArrowClosed\<rparr>))"

text \<open>
  The second loop (lines 118 to 133), with the same \<open>flush\<close> at each \<^verbatim>\<open>await\<close>: this is
  where the store learns of the node pushed last.
\<close>

function transition_loop :: "client \<Rightarrow> int \<Rightarrow> int \<Rightarrow> app \<Rightarrow> app \<times> error option" where
  "transition_loop c transitionIndex transitions s =
     (if transitionIndex < transitions then
        (case read_transitions c transitionIndex of
           Inl e \<Rightarrow> (flush s, Some e)
         | Inr transition \<Rightarrow>
             (case make_edge transitionIndex transition of
                Inl e \<Rightarrow> (flush s, Some e)
              | Inr ed \<Rightarrow>
                  transition_loop c (transitionIndex + 1) transitions
                    ((flush s)\<lparr>edges := edges s @ [ed]\<rparr>)))
      else (s, None))"
  by pat_completeness auto
termination
  by (relation "measure (\<lambda>(c, transitionIndex, transitions, s). nat (transitions - transitionIndex))") auto

subsection \<open>\<^verbatim>\<open>adjustView\<close>\<close>

text \<open>
  Modelled from the spec: \<^verbatim>\<open>updateNode\<close> belongs to the rendering library
  (\<^verbatim>\<open>useVueFlow\<close>, line 18), which is not part of the sources. It acts on the nodes
  of the store: it assigns the role to the node whose id equals the given one (the first
  such node of the sequence), and does nothing if the store holds none.
\<close>

fun updateNode :: "string \<Rightarrow> role \<Rightarrow> node list \<Rightarrow> node list" where
  "updateNode i t [] = []"
| "updateNode i t (n # ns) =
     (if node_id n = i then n\<lparr>node_type := t\<rparr> # ns else n # updateNode i t ns)"

text \<open>
  The callback of \<^verbatim>\<open>forEach\<close> (lines 142 to 145): \<^verbatim>\<open>find\<close> gives \<^verbatim>\<open>undefined\<close>, which is
  falsy, exactly when no edge has the node's id as its source; an edge object is truthy.
\<close>

definition visit :: "edge list \<Rightarrow> node \<Rightarrow> node list \<Rightarrow> node list" where
  "visit es n ns =
     (if find (\<lambda>e. source e = node_id n) es = None
      then updateNode (node_id n) Output ns else ns)"

text \<open>
  \<^verbatim>\<open>nodes.value.forEach\<close> (line 141): the nodes of the array still to visit, and the
  nodes of the store as updated so far.
\<close>

fun forEach_node :: "edge list \<Rightarrow> node list \<Rightarrow> node list \<Rightarrow> node list" where
  "forEach_node es [] ns = ns"
| "forEach_node es (n # rest) ns = forEach_node es rest (visit es n ns)"

text \<open>
  \<^verbatim>\<open>adjustView\<close> (lines 139 to 147) iterates \<^verbatim>\<open>nodes.value\<close> and searches
  \<^verbatim>\<open>edges.value\<close>, and every \<^verbatim>\<open>updateNode\<close> goes to the store; the two arrays are
  not written.
\<close>

definition adjustView :: "app \<Rightarrow> app" where
  "adjustView s =
     (let st1 = updateNode ''1'' Input (store s)
      in s\<lparr>store := forEach_node (edges s) (nodes s) st1\<rparr>)"

subsection \<open>The promise chain\<close>

text \<open>
  The callback of lines 100 to 135, an \<^verbatim>\<open>async\<close> function: both loops, then
  \<^verbatim>\<open>adjustView\<close>, which runs in the tick of the last \<^verbatim>\<open>push\<close>. An error in a loop
  rejects its promise and nothing after it runs. When the callback has ended, the
  watcher still pending runs (\<open>flush\<close>); after a rejection none is pending, since
  nothing is pushed between the \<^verbatim>\<open>await\<close> and the rejection.
\<close>

definition project :: "client \<Rightarrow> int \<Rightarrow> int \<Rightarrow> app \<Rightarrow> app \<times> error option" where
  "project c states transitions s =
     (case state_loop c 1 states 50 250 s of
        (s1, Some e) \<Rightarrow> (s1, Some e)
      | (s1, None) \<Rightarrow>
          (case transition_loop c 1 transitions s1 of
             (s2, Some e) \<Rightarrow> (s2, Some e)
           | (s2, None) \<Rightarrow> (flush (adjustView s2), None)))"

text \<open>
  \<^verbatim>\<open>onInit\<close> with \<^verbatim>\<open>readOnchainData\<close> (lines 34 to 39 and 81 to 137). The promise that
  \<^verbatim>\<open>readOnchainData\<close> returns is the one of the outer \<^verbatim>\<open>then\<close> (line 93). Its callback
  starts the read of \<^verbatim>\<open>transitionIndex\<close> and returns nothing, so that promise is
  fulfilled as soon as the read of \<^verbatim>\<open>stateIndex\<close> has resolved, and \<^verbatim>\<open>fitView\<close> runs
  then; the inner chain goes on by itself, and its rejection is handled by nobody. If
  the read of \<^verbatim>\<open>stateIndex\<close> rejects, the returned promise rejects and neither callback
  runs. The error of the result is the rejection left unhandled.
\<close>

definition onInit :: "client \<Rightarrow> app \<Rightarrow> app \<times> error option" where
  "onInit c s =
     (case read_stateIndex c of
        Inl e \<Rightarrow> (s, Some e)
      | Inr states \<Rightarrow>
          (let s1 = s\<lparr>fitViewCalled := True\<rparr>
           in case read_transitionIndex c of
                Inl e \<Rightarrow> (s1, Some e)
              | Inr transitions \<Rightarrow> project c states transitions s1))"

subsection \<open>Auxiliary definitions\<close>

text \<open>
  One iteration's read and literal taken together: what the first loop fetches for
  index \<open>j\<close> when \<^verbatim>\<open>yPos\<close> has the given value, and what the second fetches.
\<close>

definition fetch_node :: "client \<Rightarrow> int \<Rightarrow> int \<Rightarrow> int \<Rightarrow> error + node" where
  "fetch_node c j xPos yPos =
     (case read_states c j of Inl e \<Rightarrow> Inl e | Inr state \<Rightarrow> make_node j state xPos yPos)"

definition fetch_edge :: "client \<Rightarrow> int \<Rightarrow> error + edge" where
  "fetch_edge c j =
     (case read_transitions c j of Inl e \<Rightarrow> Inl e | Inr transition \<Rightarrow> make_edge j transition)"

text \<open>
  A record read that succeeds: the promise resolves, and the elements the script calls
  \<^verbatim>\<open>toString\<close> on are there.
\<close>

definition state_read_ok :: "client \<Rightarrow> int \<Rightarrow> bool" where
  "state_read_ok c j =
     (case read_states c j of Inl e \<Rightarrow> False | Inr state \<Rightarrow> js_index state 0 \<noteq> JUndefined)"

definition transition_read_ok :: "client \<Rightarrow> int \<Rightarrow> bool" where
  "transition_read_ok c j =
     (case read_transitions c j of
        Inl e \<Rightarrow> False
      | Inr transition \<Rightarrow>
          js_index transition 1 \<noteq> JUndefined \<and> js_index transition 2 \<noteq> JUndefined)"

text \<open>
  The effect of a sequence of \<^verbatim>\<open>updateNode\<close> calls in closed form: \<open>m\<close> maps an id to
  the role last assigned to it, and the role lands on the first node of that id
  (\<open>seen\<close> holds the ids of the nodes before).
\<close>

fun assign :: "(string \<rightharpoonup> role) \<Rightarrow> string set \<Rightarrow> node list \<Rightarrow> node list" where
  "assign m seen [] = []"
| "assign m seen (n # ns) =
     (if node_id n \<in> seen then n
      else (case m (node_id n) of None \<Rightarrow> n | Some t \<Rightarrow> n\<lparr>node_type := t\<rparr>))
     # assign m (insert (node_id n) seen) ns"

text \<open>The roles that \<^verbatim>\<open>forEach\<close> assigns while it visits the given nodes.\<close>

fun mark :: "edge list \<Rightarrow> node list \<Rightarrow> (string \<rightharpoonup> role) \<Rightarrow> (string \<rightharpoonup> role)" where
  "mark es [] m = m"
| "mark es (n # rest) m =
     mark es rest
       (if find (\<lambda>e. source e = node_id n) es = None then m(node_id n \<mapsto> Output) else m)"

text \<open>No node of the array or of the store has been given a role.\<close>

definition unclassified :: "app \<Rightarrow> bool" where
  "unclassified s = list_all (\<lambda>n. node_type n = Default) (nodes s @ store s)"

subsection \<open>Example clients\<close>

text \<open>
  Two states and one transition: \<^verbatim>\<open>stateIndex\<close> is 3 and \<^verbatim>\<open>transitionIndex\<close> is 2.
\<close>

definition client_example :: client where
  "client_example =
     \<lparr>read_stateIndex = Inr 3,
      read_transitionIndex = Inr 2,
      read_states = (\<lambda>i. if i = 1 then Inr [JStr ''A''] else if i = 2 then Inr [JStr ''B''] else Inl RpcError),
      read_transitions =
        (\<lambda>i. if i = 1 then Inr [JStr ''go'', JBigInt 1, JBigInt 2, JBool True] else Inl RpcError)\<rparr>"

text \<open>Both counters resolve, and the read of \<^verbatim>\<open>states(1)\<close> rejects.\<close>

definition client_rejecting :: client where
  "client_rejecting =
     \<lparr>read_stateIndex = Inr 2,
      read_transitionIndex = Inr 1,
      read_states = (\<lambda>i. Inl RpcError),
      read_transitions = (\<lambda>i. Inl RpcError)\<rparr>"

text \<open>No state is fetched, and the one transition fetched goes from 7 to 9.\<close>

definition client_dangling :: client where
  "client_dangling =
     \<lparr>read_stateIndex = Inr 1,
      read_transitionIndex = Inr 2,
      read_states = (\<lambda>i. Inl RpcError),
      read_transitions = (\<lambda>i. Inr [JStr ''go'', JBigInt 7, JBigInt 9, JBool False])\<rparr>"

text \<open>Counters 1 and 0: neither loop runs.\<close>

definition client_empty :: client where
  "client_empty =
     \<lparr>read_stateIndex = Inr 1,
      read_transitionIndex = Inr 0,
      read_states = (\<lambda>i. Inl RpcError),
      read_transitions = (\<lambda>i. Inl RpcError)\<rparr>"

text \<open>
  One state and no transition: \<^verbatim>\<open>stateIndex\<close> is 2 and \<^verbatim>\<open>transitionIndex\<close> is 1, so
  no read is awaited between the \<^verbatim>\<open>push\<close> of node 1 and \<^verbatim>\<open>adjustView\<close>.
\<close>

definition client_single :: client where
  "client_single =
     \<lparr>read_stateIndex = Inr 2,
      read_transitionIndex = Inr 1,
      read_states = (\<lambda>i. if i = 1 then Inr [JStr ''A''] else Inl RpcError),
      read_transitions = (\<lambda>i. Inl RpcError)\<rparr>"

section \<open>Properties\<close>

declare nat_toString.simps [simp del]
declare state_loop.simps [simp del]
declare transition_loop.simps [simp del]

subsection \<open>Decimal strings\<close>

lemma of_char_digit_char: "d < 10 \<Longrightarrow> of_char (digit_char d) = (48::nat) + d"
  by (simp add: digit_char_def)

lemma digits_nat_toString:
  "foldl (\<lambda>a ch. 10 * a + (of_char ch - 48)) (0::nat) (nat_toString n) = n"
proof (induction n rule: nat_toString.induct)
  case (1 n)
  show ?case
  proof (cases "n < 10")
    case True
    then show ?thesis
      by (simp add: nat_toString.simps [of n] of_char_digit_char)
  next
    case False
    with "1" show ?thesis
      by (simp add: nat_toString.simps [of n] of_char_digit_char)
  qed
qed

lemma nat_toString_inj: "nat_toString a = nat_toString b \<Longrightarrow> a = b"
  by (metis digits_nat_toString)

lemma int_toString_inj_on: "inj_on int_toString {0..}"
  by (auto simp: inj_on_def int_toString_def dest!: nat_toString_inj)

lemma digit_char_numeral:
  "digit_char 0 = CHR ''0''" "digit_char (Suc 0) = CHR ''1''" "digit_char 1 = CHR ''1''" "digit_char 2 = CHR ''2''"
  "digit_char 3 = CHR ''3''" "digit_char 4 = CHR ''4''" "digit_char 5 = CHR ''5''"
  "digit_char 6 = CHR ''6''" "digit_char 7 = CHR ''7''" "digit_char 8 = CHR ''8''"
  "digit_char 9 = CHR ''9''"
  by code_simp+

lemma int_toString_1: "int_toString 1 = ''1''"
  by (simp add: int_toString_def nat_toString.simps digit_char_numeral)

subsection \<open>The first loop\<close>

lemma state_loop_result:
  "state_loop c i n y x s = (s', r) \<Longrightarrow>
   \<exists>new st. s' = s\<lparr>nodes := nodes s @ new, store := st\<rparr> \<and>
     list_all2 (\<lambda>j nd. fetch_node c j x (y + 100 * (j - i + 1)) = Inr nd)
       [i..i + int (length new) - 1] new \<and>
     (case r of
        None \<Rightarrow> i + int (length new) = max i n
      | Some e \<Rightarrow> i + int (length new) < n \<and>
          fetch_node c (i + int (length new)) x (y + 100 * (int (length new) + 1)) = Inl e)"
proof (induction c i n y x s arbitrary: s' r rule: state_loop.induct)
  case (1 c i n y x s)
  show ?case
  proof (cases "i < n")
    case False
    with "1.prems" have "s' = s" "r = None"
      by (simp_all add: state_loop.simps [of c i n])
    with False show ?thesis
      by (intro exI [of _ "[]"] exI [of _ "store s"]) simp
  next
    case True
    show ?thesis
    proof (cases "fetch_node c i x (y + 100)")
      case (Inl e)
      with True "1.prems" have "s' = flush s" "r = Some e"
        by (auto simp: state_loop.simps [of c i n] fetch_node_def split: sum.splits)
      with True Inl show ?thesis
        by (intro exI [of _ "[]"] exI [of _ "store (flush s)"]) (simp add: flush_def)
    next
      case (Inr nd)
      then obtain state where st: "read_states c i = Inr state"
        and mk: "make_node i state x (y + 100) = Inr nd"
        by (auto simp: fetch_node_def split: sum.splits)
      from True st mk "1.prems"
      have run: "state_loop c (i + 1) n (y + 100) x ((flush s)\<lparr>nodes := nodes s @ [nd]\<rparr>) = (s', r)"
        by (simp add: state_loop.simps [of c i n])
      from "1.IH" [OF True st mk run] obtain new st where
        s': "s' = s\<lparr>nodes := nodes s @ nd # new, store := st\<rparr>"
        and all: "list_all2 (\<lambda>j nd. fetch_node c j x (y + 100 + 100 * (j - (i + 1) + 1)) = Inr nd)
                    [i + 1..i + 1 + int (length new) - 1] new"
        and fin: "(case r of
            None \<Rightarrow> i + 1 + int (length new) = max (i + 1) n
          | Some e \<Rightarrow> i + 1 + int (length new) < n \<and>
              fetch_node c (i + 1 + int (length new)) x (y + 100 + 100 * (int (length new) + 1)) = Inl e)"
        by (auto simp: flush_def)
      have idx: "[i..i + int (length (nd # new)) - 1] = i # [i + 1..i + 1 + int (length new) - 1]"
        by (simp add: upto_rec1 [of i] add.commute add.left_commute)
      have pos: "\<And>j. y + 100 + 100 * (j - (i + 1) + 1) = y + 100 * (j - i + 1)"
        by (simp add: algebra_simps)
      have all': "list_all2 (\<lambda>j nd. fetch_node c j x (y + 100 * (j - i + 1)) = Inr nd)
                    [i + 1..i + 1 + int (length new) - 1] new"
        using all by (simp only: pos)
      have hd: "fetch_node c i x (y + 100 * (i - i + 1)) = Inr nd"
        using Inr by simp
      have "list_all2 (\<lambda>j nd. fetch_node c j x (y + 100 * (j - i + 1)) = Inr nd)
              [i..i + int (length (nd # new)) - 1] (nd # new)"
        unfolding idx using hd all' by (simp only: list_all2_Cons simp_thms)
      moreover have "(case r of
            None \<Rightarrow> i + int (length (nd # new)) = max i n
          | Some e \<Rightarrow> i + int (length (nd # new)) < n \<and>
              fetch_node c (i + int (length (nd # new))) x (y + 100 * (int (length (nd # new)) + 1)) = Inl e)"
        using fin True by (auto split: option.splits simp: algebra_simps max_def)
      ultimately show ?thesis
        using s' by (intro exI [of _ "nd # new"] exI [of _ st]) blast
    qed
  qed
qed

subsection \<open>\<^verbatim>\<open>updateNode\<close> and \<^verbatim>\<open>forEach\<close> in closed form\<close>

lemma assign_ids: "map node_id (assign m seen ns) = map node_id ns"
  by (induction ns arbitrary: seen) (auto split: option.splits)

lemma assign_frame:
  "map (\<lambda>n. n\<lparr>node_type := Default\<rparr>) (assign m seen ns) = map (\<lambda>n. n\<lparr>node_type := Default\<rparr>) ns"
  by (induction ns arbitrary: seen) (auto split: option.splits)

lemma assign_empty: "assign Map.empty seen ns = ns"
  by (induction ns arbitrary: seen) auto

lemma assign_cong: "\<forall>i. i \<notin> seen \<longrightarrow> m i = m' i \<Longrightarrow> assign m seen ns = assign m' seen ns"
proof (induction ns arbitrary: seen)
  case Nil
  then show ?case by simp
next
  case (Cons n ns)
  from Cons.prems have "\<forall>i. i \<notin> insert (node_id n) seen \<longrightarrow> m i = m' i"
    by simp
  from Cons.IH [OF this] Cons.prems show ?case
    by simp
qed

lemma updateNode_assign:
  "i \<notin> seen \<Longrightarrow> updateNode i t (assign m seen ns) = assign (m(i \<mapsto> t)) seen ns"
proof (induction ns arbitrary: seen)
  case Nil
  then show ?case by simp
next
  case (Cons n ns)
  show ?case
  proof (cases "node_id n = i")
    case True
    have tl: "assign (m(i \<mapsto> t)) (insert i seen) ns = assign m (insert i seen) ns"
      by (rule assign_cong) simp
    have lhs: "updateNode i t (assign m seen (n # ns)) = n\<lparr>node_type := t\<rparr> # assign m (insert i seen) ns"
      using True Cons.prems by (cases "m i") simp_all
    have rhs: "assign (m(i \<mapsto> t)) seen (n # ns) = n\<lparr>node_type := t\<rparr> # assign (m(i \<mapsto> t)) (insert i seen) ns"
      using True Cons.prems by simp
    show ?thesis
      by (simp only: lhs rhs tl)
  next
    case False
    with Cons.prems have "i \<notin> insert (node_id n) seen" by simp
    from Cons.IH [OF this] False show ?thesis
      by (simp split: option.splits)
  qed
qed

lemma forEach_node_assign:
  "forEach_node es vs (assign m {} ns) = assign (mark es vs m) {} ns"
  by (induction vs arbitrary: m) (simp_all add: visit_def updateNode_assign)

lemma mark_apply:
  "mark es vs m i =
     (if (\<exists>v\<in>set vs. node_id v = i) \<and> find (\<lambda>e. source e = i) es = None
      then Some Output else m i)"
  by (induction vs arbitrary: m) auto

lemma store_adjustView:
  "store (adjustView s) = assign (mark (edges s) (nodes s) [''1'' \<mapsto> Input]) {} (store s)"
proof -
  have u: "updateNode ''1'' Input (store s) = assign [''1'' \<mapsto> Input] {} (store s)"
    using updateNode_assign [of "''1''" "{}" Input Map.empty "store s"]
    by (simp add: assign_empty)
  show ?thesis
    by (simp add: adjustView_def Let_def u forEach_node_assign)
qed

lemma adjustView_eq:
  "adjustView s = s\<lparr>store := assign (mark (edges s) (nodes s) [''1'' \<mapsto> Input]) {} (store s)\<rparr>"
  using store_adjustView [of s] by (simp add: adjustView_def Let_def)


lemma assign_distinct:
  "distinct (map node_id ns) \<Longrightarrow> seen \<inter> node_id ` set ns = {} \<Longrightarrow>
   n \<in> set (assign m seen ns) \<Longrightarrow> m (node_id n) = Some t \<Longrightarrow> node_type n = t"
proof (induction ns arbitrary: seen)
  case Nil
  then show ?case by simp
next
  case (Cons a ns)
  from Cons.prems(3) consider
    (hd) "n = (if node_id a \<in> seen then a
              else (case m (node_id a) of None \<Rightarrow> a | Some t \<Rightarrow> a\<lparr>node_type := t\<rparr>))"
    | (tl) "n \<in> set (assign m (insert (node_id a) seen) ns)"
    by auto
  then show ?case
  proof cases
    case hd
    with Cons.prems(2,4) show ?thesis
      by (auto split: option.splits if_splits)
  next
    case tl
    from Cons.prems(1,2) have "distinct (map node_id ns)"
      and "insert (node_id a) seen \<inter> node_id ` set ns = {}"
      by auto
    from Cons.IH [OF this tl Cons.prems(4)] show ?thesis .
  qed
qed

subsection \<open>The second loop and the whole projection\<close>

lemma transition_loop_result:
  "transition_loop c i m s = (s', r) \<Longrightarrow>
   \<exists>es st. s' = s\<lparr>edges := edges s @ es, store := st\<rparr> \<and>
     list_all2 (\<lambda>j e. fetch_edge c j = Inr e) [i..i + int (length es) - 1] es \<and>
     (case r of
        None \<Rightarrow> i + int (length es) = max i m
      | Some e \<Rightarrow> i + int (length es) < m \<and> fetch_edge c (i + int (length es)) = Inl e)"
proof (induction c i m s arbitrary: s' r rule: transition_loop.induct)
  case (1 c i m s)
  show ?case
  proof (cases "i < m")
    case False
    with "1.prems" have "s' = s" "r = None"
      by (simp_all add: transition_loop.simps [of c i m])
    with False show ?thesis
      by (intro exI [of _ "[]"] exI [of _ "store s"]) simp
  next
    case True
    show ?thesis
    proof (cases "fetch_edge c i")
      case (Inl e)
      with True "1.prems" have "s' = flush s" "r = Some e"
        by (auto simp: transition_loop.simps [of c i m] fetch_edge_def split: sum.splits)
      with True Inl show ?thesis
        by (intro exI [of _ "[]"] exI [of _ "store (flush s)"]) (simp add: flush_def)
    next
      case (Inr ed)
      then obtain transition where tr: "read_transitions c i = Inr transition"
        and mk: "make_edge i transition = Inr ed"
        by (auto simp: fetch_edge_def split: sum.splits)
      from True tr mk "1.prems"
      have run: "transition_loop c (i + 1) m ((flush s)\<lparr>edges := edges s @ [ed]\<rparr>) = (s', r)"
        by (simp add: transition_loop.simps [of c i m])
      from "1.IH" [OF True tr mk run] obtain es st where
        s': "s' = s\<lparr>edges := edges s @ ed # es, store := st\<rparr>"
        and all: "list_all2 (\<lambda>j e. fetch_edge c j = Inr e) [i + 1..i + 1 + int (length es) - 1] es"
        and fin: "(case r of
            None \<Rightarrow> i + 1 + int (length es) = max (i + 1) m
          | Some e \<Rightarrow> i + 1 + int (length es) < m \<and> fetch_edge c (i + 1 + int (length es)) = Inl e)"
        by (auto simp: flush_def)
      have idx: "[i..i + int (length (ed # es)) - 1] = i # [i + 1..i + 1 + int (length es) - 1]"
        by (simp add: upto_rec1 [of i] add.commute add.left_commute)
      have "list_all2 (\<lambda>j e. fetch_edge c j = Inr e) [i..i + int (length (ed # es)) - 1] (ed # es)"
        unfolding idx using Inr all by (simp only: list_all2_Cons simp_thms)
      moreover have "(case r of
            None \<Rightarrow> i + int (length (ed # es)) = max i m
          | Some e \<Rightarrow> i + int (length (ed # es)) < m \<and>
              fetch_edge c (i + int (length (ed # es))) = Inl e)"
        using fin True by (auto split: option.splits simp: algebra_simps max_def)
      ultimately show ?thesis
        using s' by (intro exI [of _ "ed # es"] exI [of _ st]) blast
    qed
  qed
qed

text \<open>What the fields of a fetched node and of a fetched edge are.\<close>

lemma fetch_node_fields:
  "fetch_node c j x y = Inr nd \<Longrightarrow>
   node_id nd = int_toString j \<and> node_position nd = \<lparr>pos_x = x, pos_y = y\<rparr> \<and>
   node_class nd = ''light'' \<and> node_type nd = Default"
  by (auto simp: fetch_node_def make_node_def split: sum.splits)

lemma fetch_edge_fields:
  "fetch_edge c j = Inr e \<Longrightarrow>
   \<exists>t. read_transitions c j = Inr t \<and> edge_id e = j \<and> edge_label e = js_index t 0 \<and>
     js_toString (js_index t 1) = Inr (source e) \<and>
     js_toString (js_index t 2) = Inr (target e) \<and>
     animated e = js_Boolean (js_index t 3) \<and> markerEnd e = ArrowClosed"
  by (auto simp: fetch_edge_def make_edge_def split: sum.splits)

lemma js_toString_defined: "v \<noteq> JUndefined \<Longrightarrow> \<exists>str. js_toString v = Inr str"
  by (cases v) simp_all

lemma fetch_node_ok: "state_read_ok c j \<Longrightarrow> \<exists>nd. fetch_node c j x y = Inr nd"
  by (auto simp: state_read_ok_def fetch_node_def make_node_def split: sum.splits
      dest: js_toString_defined)

lemma fetch_edge_ok: "transition_read_ok c j \<Longrightarrow> \<exists>e. fetch_edge c j = Inr e"
  by (auto simp: transition_read_ok_def fetch_edge_def make_edge_def split: sum.splits
      dest: js_toString_defined)

lemma list_all2_in_set:
  "list_all2 P xs ys \<Longrightarrow> y \<in> set ys \<Longrightarrow> \<exists>x\<in>set xs. P x y"
  by (induction rule: list_all2_induct) auto

lemma upto_from_1: "[1..int n] = map (\<lambda>k. 1 + int k) [0..<n]"
proof (induction n)
  case 0
  show ?case by simp
next
  case (Suc n)
  have "[1..int (Suc n)] = [1..int n] @ [int n + 1]"
    using upto_rec2 [of 1 "int n + 1"] by (simp add: add.commute)
  with Suc show ?case by (simp add: add.commute)
qed

lemma adjustView_frame:
  "nodes (adjustView s) = nodes s"
  "edges (adjustView s) = edges s"
  "fitViewCalled (adjustView s) = fitViewCalled s"
  "map (\<lambda>n. n\<lparr>node_type := Default\<rparr>) (store (adjustView s)) = map (\<lambda>n. n\<lparr>node_type := Default\<rparr>) (store s)"
  by (simp_all add: adjustView_eq assign_frame)

lemma flush_frame:
  "nodes (flush s) = nodes s"
  "edges (flush s) = edges s"
  "fitViewCalled (flush s) = fitViewCalled s"
  by (simp_all add: flush_def)

text \<open>After a \<open>flush\<close> the store holds the nodes of the array, up to their roles.\<close>

lemma flush_in_step:
  "map (\<lambda>n. n\<lparr>node_type := Default\<rparr>) (store (flush s)) = map (\<lambda>n. n\<lparr>node_type := Default\<rparr>) (nodes s)"
  by (auto simp: flush_def split: option.splits)

lemma project_result:
  assumes "project c n m s = (s', r)"
  shows "\<exists>new es.
     list_all2 (\<lambda>j nd. fetch_node c j 250 (50 + 100 * j) = Inr nd) [1..int (length new)] new \<and>
     list_all2 (\<lambda>j e. fetch_edge c j = Inr e) [1..int (length es)] es \<and>
     nodes s' = nodes s @ new \<and> edges s' = edges s @ es \<and>
     fitViewCalled s' = fitViewCalled s \<and>
     (r = None \<and> 1 + int (length new) = max 1 n \<and> 1 + int (length es) = max 1 m
      \<or> (\<exists>e. r = Some e \<and>
           (1 + int (length new) < n \<and> es = [] \<and>
              fetch_node c (1 + int (length new)) 250 (50 + 100 * (1 + int (length new))) = Inl e
            \<or> 1 + int (length new) = max 1 n \<and> 1 + int (length es) < m \<and>
              fetch_edge c (1 + int (length es)) = Inl e)))"
proof -
  obtain s1 r1 where l1: "state_loop c 1 n 50 250 s = (s1, r1)"
    by (cases "state_loop c 1 n 50 250 s")
  from state_loop_result [OF l1] obtain new st1 where
    s1: "s1 = s\<lparr>nodes := nodes s @ new, store := st1\<rparr>"
    and all1: "list_all2 (\<lambda>j nd. fetch_node c j 250 (50 + 100 * (j - 1 + 1)) = Inr nd)
                 [1..1 + int (length new) - 1] new"
    and fin1: "(case r1 of
        None \<Rightarrow> 1 + int (length new) = max 1 n
      | Some e \<Rightarrow> 1 + int (length new) < n \<and>
          fetch_node c (1 + int (length new)) 250 (50 + 100 * (int (length new) + 1)) = Inl e)"
    by blast
  from all1 have nodes_ok:
    "list_all2 (\<lambda>j nd. fetch_node c j 250 (50 + 100 * j) = Inr nd) [1..int (length new)] new"
    by simp
  show ?thesis
  proof (cases r1)
    case (Some e)
    with assms l1 have "s' = s1" "r = Some e"
      by (simp_all add: project_def)
    with s1 fin1 Some nodes_ok show ?thesis
      by (intro exI [of _ new] exI [of _ "[]"]) (simp add: add.commute)
  next
    case None
    obtain s2 r2 where l2: "transition_loop c 1 m s1 = (s2, r2)"
      by (cases "transition_loop c 1 m s1")
    from transition_loop_result [OF l2] obtain es st2 where
      s2: "s2 = s1\<lparr>edges := edges s1 @ es, store := st2\<rparr>"
      and all2: "list_all2 (\<lambda>j e. fetch_edge c j = Inr e) [1..1 + int (length es) - 1] es"
      and fin2: "(case r2 of
          None \<Rightarrow> 1 + int (length es) = max 1 m
        | Some e \<Rightarrow> 1 + int (length es) < m \<and> fetch_edge c (1 + int (length es)) = Inl e)"
      by blast
    from all2 have edges_ok: "list_all2 (\<lambda>j e. fetch_edge c j = Inr e) [1..int (length es)] es"
      by simp
    from s1 s2 have s2': "nodes s2 = nodes s @ new" "edges s2 = edges s @ es"
      "fitViewCalled s2 = fitViewCalled s"
      by simp_all
    show ?thesis
    proof (cases r2)
      case (Some e)
      with assms l1 l2 None have "s' = s2" "r = Some e"
        by (simp_all add: project_def)
      with s2' fin1 fin2 None Some nodes_ok edges_ok show ?thesis
        by (intro exI [of _ new] exI [of _ es]) simp
    next
      case r2: None
      with assms l1 l2 None have "s' = flush (adjustView s2)" "r = None"
        by (simp_all add: project_def)
      with s2' fin1 fin2 None r2 nodes_ok edges_ok show ?thesis
        by (intro exI [of _ new] exI [of _ es]) (simp add: flush_frame adjustView_frame)
    qed
  qed
qed

subsection \<open>Runs of the example clients\<close>

lemma example_run:
  "onInit client_example init =
     (\<lparr>nodes =
         [\<lparr>node_id = ''1'', data_label = ''A'', node_position = \<lparr>pos_x = 250, pos_y = 150\<rparr>,
           node_class = ''light'', node_type = Default\<rparr>,
          \<lparr>node_id = ''2'', data_label = ''B'', node_position = \<lparr>pos_x = 250, pos_y = 250\<rparr>,
           node_class = ''light'', node_type = Default\<rparr>],
       edges =
         [\<lparr>edge_id = 1, edge_label = JStr ''go'', source = ''1'', target = ''2'',
           animated = True, markerEnd = ArrowClosed\<rparr>],
       store =
         [\<lparr>node_id = ''1'', data_label = ''A'', node_position = \<lparr>pos_x = 250, pos_y = 150\<rparr>,
           node_class = ''light'', node_type = Input\<rparr>,
          \<lparr>node_id = ''2'', data_label = ''B'', node_position = \<lparr>pos_x = 250, pos_y = 250\<rparr>,
           node_class = ''light'', node_type = Output\<rparr>],
       fitViewCalled = True\<rparr>, None)"
  by (simp add: onInit_def project_def client_example_def init_def state_loop.simps
      transition_loop.simps make_node_def make_edge_def js_index_def int_toString_def
      nat_toString.simps digit_char_numeral adjustView_def visit_def flush_def)

lemma dangling_run:
  "onInit client_dangling init =
     (\<lparr>nodes = [],
       edges = [\<lparr>edge_id = 1, edge_label = JStr ''go'', source = ''7'', target = ''9'',
           animated = False, markerEnd = ArrowClosed\<rparr>],
       store = [],
       fitViewCalled = True\<rparr>, None)"
  by (simp add: onInit_def project_def client_dangling_def init_def state_loop.simps
      transition_loop.simps make_edge_def js_index_def int_toString_def
      nat_toString.simps digit_char_numeral adjustView_def visit_def flush_def)

subsection \<open>The graph of any run\<close>

lemma onInit_result:
  "onInit c s = (s', r) \<Longrightarrow>
   (\<exists>e. read_stateIndex c = Inl e \<and> s' = s \<and> r = Some e) \<or>
   (\<exists>n e. read_stateIndex c = Inr n \<and> read_transitionIndex c = Inl e \<and>
      s' = s\<lparr>fitViewCalled := True\<rparr> \<and> r = Some e) \<or>
   (\<exists>n m. read_stateIndex c = Inr n \<and> read_transitionIndex c = Inr m \<and>
      project c n m (s\<lparr>fitViewCalled := True\<rparr>) = (s', r))"
  by (auto simp: onInit_def Let_def split: sum.splits)

lemma onInit_graph:
  "\<exists>new es.
     list_all2 (\<lambda>j nd. fetch_node c j 250 (50 + 100 * j) = Inr nd) [1..int (length new)] new \<and>
     list_all2 (\<lambda>j e. fetch_edge c j = Inr e) [1..int (length es)] es \<and>
     map node_id (nodes (fst (onInit c init))) = map node_id new \<and>
     map node_position (nodes (fst (onInit c init))) = map node_position new \<and>
     edges (fst (onInit c init)) = es"
proof -
  obtain s' r where run: "onInit c init = (s', r)"
    by (cases "onInit c init")
  from onInit_result [OF run] consider
    (early) "s' = init \<or> s' = init\<lparr>fitViewCalled := True\<rparr>"
    | (project) n m where "project c n m (init\<lparr>fitViewCalled := True\<rparr>) = (s', r)"
    by blast
  then show ?thesis
  proof cases
    case early
    then have "nodes s' = []" "edges s' = []"
      by (auto simp: init_def)
    with run show ?thesis
      by (intro exI [of _ "[]"]) simp
  next
    case project
    from project_result [OF project] obtain new es where
      n: "list_all2 (\<lambda>j nd. fetch_node c j 250 (50 + 100 * j) = Inr nd) [1..int (length new)] new"
      and e: "list_all2 (\<lambda>j e. fetch_edge c j = Inr e) [1..int (length es)] es"
      and s': "nodes s' = new" "edges s' = es"
      by (auto simp: init_def)
    from s' have "map node_id (nodes s') = map node_id new"
      "map node_position (nodes s') = map node_position new" "edges s' = es"
      by simp_all
    with run n e show ?thesis
      by (intro exI [of _ new] exI [of _ es]) simp
  qed
qed

lemma fetched_node_ids:
  "list_all2 (\<lambda>j nd. fetch_node c j x (f j) = Inr nd) js new \<Longrightarrow>
   map node_id new = map int_toString js \<and>
   map node_position new = map (\<lambda>j. \<lparr>pos_x = x, pos_y = f j\<rparr>) js"
  by (induction rule: list_all2_induct) (auto dest: fetch_node_fields)

lemma fetched_edge_ids:
  "list_all2 (\<lambda>j e. fetch_edge c j = Inr e) js es \<Longrightarrow> map edge_id es = js"
  by (induction rule: list_all2_induct) (auto dest: fetch_edge_fields)

lemma distinct_ids: "distinct (map int_toString [1..k])"
proof -
  have "inj_on int_toString (set [1..k])"
    by (rule inj_on_subset [OF int_toString_inj_on]) auto
  then show ?thesis
    by (simp add: distinct_map)
qed

section \<open>The claims\<close>

subsection \<open>Facts about failed runs\<close>

lemma fetched_nodes_default:
  "list_all2 (\<lambda>j nd. fetch_node c j x (f j) = Inr nd) js new \<Longrightarrow> nd \<in> set new \<Longrightarrow>
   node_type nd = Default"
  by (induction rule: list_all2_induct) (auto dest: fetch_node_fields)

lemma fitView_after_stateIndex:
  assumes "read_stateIndex c = Inr n"
  shows "fitViewCalled (fst (onInit c s))"
proof (cases "read_transitionIndex c")
  case (Inl e)
  with assms show ?thesis
    by (simp add: onInit_def)
next
  case (Inr m)
  obtain s' r where p: "project c n m (s\<lparr>fitViewCalled := True\<rparr>) = (s', r)"
    by (cases "project c n m (s\<lparr>fitViewCalled := True\<rparr>)")
  from project_result [OF p] have "fitViewCalled s'"
    by auto
  with assms Inr p show ?thesis
    by (simp add: onInit_def)
qed

lemma flush_unclassified: "unclassified s \<Longrightarrow> unclassified (flush s)"
  by (auto simp: unclassified_def flush_def list_all_iff find_Some_iff split: option.splits)

lemma state_loop_unclassified:
  "state_loop c i n y x s = (s', r) \<Longrightarrow> unclassified s \<Longrightarrow> unclassified s'"
proof (induction c i n y x s arbitrary: s' r rule: state_loop.induct)
  case (1 c i n y x s)
  show ?case
  proof (cases "i < n")
    case False
    with "1.prems" show ?thesis
      by (simp add: state_loop.simps [of c i n])
  next
    case True
    show ?thesis
    proof (cases "fetch_node c i x (y + 100)")
      case (Inl e)
      with True "1.prems"(1) have "s' = flush s"
        by (auto simp: state_loop.simps [of c i n] fetch_node_def split: sum.splits)
      with "1.prems"(2) show ?thesis
        by (simp add: flush_unclassified)
    next
      case (Inr nd)
      then obtain state where st: "read_states c i = Inr state"
        and mk: "make_node i state x (y + 100) = Inr nd"
        by (auto simp: fetch_node_def split: sum.splits)
      from True st mk "1.prems"(1)
      have run: "state_loop c (i + 1) n (y + 100) x ((flush s)\<lparr>nodes := nodes s @ [nd]\<rparr>) = (s', r)"
        by (simp add: state_loop.simps [of c i n])
      from fetch_node_fields [OF Inr] flush_unclassified [OF "1.prems"(2)]
      have "unclassified ((flush s)\<lparr>nodes := nodes s @ [nd]\<rparr>)"
        by (simp add: unclassified_def flush_frame)
      from "1.IH" [OF True st mk run this] show ?thesis .
    qed
  qed
qed

lemma transition_loop_unclassified:
  "transition_loop c i m s = (s', r) \<Longrightarrow> unclassified s \<Longrightarrow> unclassified s'"
proof (induction c i m s arbitrary: s' r rule: transition_loop.induct)
  case (1 c i m s)
  show ?case
  proof (cases "i < m")
    case False
    with "1.prems" show ?thesis
      by (simp add: transition_loop.simps [of c i m])
  next
    case True
    show ?thesis
    proof (cases "fetch_edge c i")
      case (Inl e)
      with True "1.prems"(1) have "s' = flush s"
        by (auto simp: transition_loop.simps [of c i m] fetch_edge_def split: sum.splits)
      with "1.prems"(2) show ?thesis
        by (simp add: flush_unclassified)
    next
      case (Inr ed)
      then obtain transition where tr: "read_transitions c i = Inr transition"
        and mk: "make_edge i transition = Inr ed"
        by (auto simp: fetch_edge_def split: sum.splits)
      from True tr mk "1.prems"(1)
      have run: "transition_loop c (i + 1) m ((flush s)\<lparr>edges := edges s @ [ed]\<rparr>) = (s', r)"
        by (simp add: transition_loop.simps [of c i m])
      from flush_unclassified [OF "1.prems"(2)]
      have "unclassified ((flush s)\<lparr>edges := edges s @ [ed]\<rparr>)"
        by (simp add: unclassified_def)
      from "1.IH" [OF True tr mk run this] show ?thesis .
    qed
  qed
qed

text \<open>
  A run that ends with a rejection has given no role: every node of the array and of
  the store still has the default one.
\<close>

lemma rejection_leaves_unclassified:
  assumes "onInit c init = (s', Some e)" and "nd \<in> set (nodes s') \<union> set (store s')"
  shows "node_type nd = Default"
proof -
  have u0: "unclassified (init\<lparr>fitViewCalled := True\<rparr>)"
    by (simp add: unclassified_def init_def)
  from onInit_result [OF assms(1)] consider
    (early) "s' = init \<or> s' = init\<lparr>fitViewCalled := True\<rparr>"
    | (project) n m where "project c n m (init\<lparr>fitViewCalled := True\<rparr>) = (s', Some e)"
    by blast
  then have "unclassified s'"
  proof cases
    case early
    then show ?thesis
      by (auto simp: init_def unclassified_def)
  next
    case project
    obtain s1 r1 where l1: "state_loop c 1 n 50 250 (init\<lparr>fitViewCalled := True\<rparr>) = (s1, r1)"
      by (cases "state_loop c 1 n 50 250 (init\<lparr>fitViewCalled := True\<rparr>)")
    from state_loop_unclassified [OF l1 u0] have u1: "unclassified s1" .
    show ?thesis
    proof (cases r1)
      case (Some e1)
      with project l1 have "s' = s1"
        by (simp add: project_def)
      with u1 show ?thesis by simp
    next
      case None
      obtain s2 r2 where l2: "transition_loop c 1 m s1 = (s2, r2)"
        by (cases "transition_loop c 1 m s1")
      from transition_loop_unclassified [OF l2 u1] have u2: "unclassified s2" .
      from project l1 l2 None have "s' = s2"
        by (cases r2) (simp_all add: project_def)
      with u2 show ?thesis by simp
    qed
  qed
  with assms(2) show ?thesis
    by (auto simp: unclassified_def list_all_iff)
qed

text \<open>
  When a run has ended, the store holds the nodes of the array in their order, up to
  the roles.
\<close>

lemma state_loop_in_step:
  "state_loop c i n y x s = (s', Some e) \<Longrightarrow>
   map (\<lambda>n. n\<lparr>node_type := Default\<rparr>) (store s') = map (\<lambda>n. n\<lparr>node_type := Default\<rparr>) (nodes s')"
proof (induction c i n y x s arbitrary: s' rule: state_loop.induct)
  case (1 c i n y x s)
  from "1.prems" have True: "i < n"
    by (auto simp: state_loop.simps [of c i n] split: if_splits)
  show ?case
  proof (cases "fetch_node c i x (y + 100)")
    case (Inl e')
    with True "1.prems" have "s' = flush s"
      by (auto simp: state_loop.simps [of c i n] fetch_node_def split: sum.splits)
    then show ?thesis
      by (simp add: flush_in_step flush_frame)
  next
    case (Inr nd)
    then obtain state where st: "read_states c i = Inr state"
      and mk: "make_node i state x (y + 100) = Inr nd"
      by (auto simp: fetch_node_def split: sum.splits)
    from True st mk "1.prems"
    have run: "state_loop c (i + 1) n (y + 100) x ((flush s)\<lparr>nodes := nodes s @ [nd]\<rparr>) = (s', Some e)"
      by (simp add: state_loop.simps [of c i n])
    from "1.IH" [OF True st mk run] show ?thesis .
  qed
qed

lemma transition_loop_in_step:
  "transition_loop c i m s = (s', Some e) \<Longrightarrow>
   map (\<lambda>n. n\<lparr>node_type := Default\<rparr>) (store s') = map (\<lambda>n. n\<lparr>node_type := Default\<rparr>) (nodes s')"
proof (induction c i m s arbitrary: s' rule: transition_loop.induct)
  case (1 c i m s)
  from "1.prems" have True: "i < m"
    by (auto simp: transition_loop.simps [of c i m] split: if_splits)
  show ?case
  proof (cases "fetch_edge c i")
    case (Inl e')
    with True "1.prems" have "s' = flush s"
      by (auto simp: transition_loop.simps [of c i m] fetch_edge_def split: sum.splits)
    then show ?thesis
      by (simp add: flush_in_step flush_frame)
  next
    case (Inr ed)
    then obtain transition where tr: "read_transitions c i = Inr transition"
      and mk: "make_edge i transition = Inr ed"
      by (auto simp: fetch_edge_def split: sum.splits)
    from True tr mk "1.prems"
    have run: "transition_loop c (i + 1) m ((flush s)\<lparr>edges := edges s @ [ed]\<rparr>) = (s', Some e)"
      by (simp add: transition_loop.simps [of c i m])
    from "1.IH" [OF True tr mk run] show ?thesis .
  qed
qed

lemma store_in_step:
  "map (\<lambda>n. n\<lparr>node_type := Default\<rparr>) (store (fst (onInit c init))) =
   map (\<lambda>n. n\<lparr>node_type := Default\<rparr>) (nodes (fst (onInit c init)))"
proof -
  obtain s' r where run: "onInit c init = (s', r)"
    by (cases "onInit c init")
  from onInit_result [OF run] consider
    (early) "s' = init \<or> s' = init\<lparr>fitViewCalled := True\<rparr>"
    | (project) n m where "project c n m (init\<lparr>fitViewCalled := True\<rparr>) = (s', r)"
    by blast
  then have "map (\<lambda>n. n\<lparr>node_type := Default\<rparr>) (store s') = map (\<lambda>n. n\<lparr>node_type := Default\<rparr>) (nodes s')"
  proof cases
    case early
    then show ?thesis
      by (auto simp: init_def)
  next
    case project
    obtain s1 r1 where l1: "state_loop c 1 n 50 250 (init\<lparr>fitViewCalled := True\<rparr>) = (s1, r1)"
      by (cases "state_loop c 1 n 50 250 (init\<lparr>fitViewCalled := True\<rparr>)")
    show ?thesis
    proof (cases r1)
      case (Some e1)
      with project l1 have "s' = s1"
        by (simp add: project_def)
      with state_loop_in_step [of c 1 n 50 250 _ s1 e1] l1 Some show ?thesis
        by simp
    next
      case None
      obtain s2 r2 where l2: "transition_loop c 1 m s1 = (s2, r2)"
        by (cases "transition_loop c 1 m s1")
      show ?thesis
      proof (cases r2)
        case (Some e2)
        with project l1 l2 None have "s' = s2"
          by (simp add: project_def)
        with transition_loop_in_step [of c 1 m s1 s2 e2] l2 Some show ?thesis
          by simp
      next
        case r2: None
        with project l1 l2 None have "s' = flush (adjustView s2)"
          by (simp add: project_def)
        then show ?thesis
          by (simp add: flush_in_step flush_frame)
      qed
    qed
  qed
  with run show ?thesis by simp
qed

subsection \<open>The projection\<close>

text \<open>
  Claim C1. When \<^verbatim>\<open>stateIndex\<close> resolves to \<open>N \<ge> 1\<close>, \<^verbatim>\<open>transitionIndex\<close> resolves, and
  every read of \<^verbatim>\<open>states(j)\<close> for \<open>1 \<le> j < N\<close> succeeds, the run appends exactly
  \<open>N - 1\<close> nodes to the array, and the ids of the appended nodes are the decimal
  strings of \<open>1, \<dots>, N - 1\<close> in this order. This holds whether or not the second loop
  fails afterwards.
\<close>

theorem node_count:
  assumes "read_stateIndex c = Inr N" and "1 \<le> N"
    and "read_transitionIndex c = Inr M"
    and "\<forall>j\<in>{1..<N}. state_read_ok c j"
  shows "length (nodes (fst (onInit c s))) = length (nodes s) + nat (N - 1) \<and>
         map node_id (nodes (fst (onInit c s))) =
           map node_id (nodes s) @ map int_toString [1..N - 1]"
proof -
  obtain s' r where run: "onInit c s = (s', r)"
    by (cases "onInit c s")
  with assms(1,3) have "project c N M (s\<lparr>fitViewCalled := True\<rparr>) = (s', r)"
    by (simp add: onInit_def)
  from project_result [OF this] obtain new es where
    n: "list_all2 (\<lambda>j nd. fetch_node c j 250 (50 + 100 * j) = Inr nd) [1..int (length new)] new"
    and s': "nodes s' = nodes s @ new"
    and stop: "1 + int (length new) = max 1 N
           \<or> (\<exists>e. 1 + int (length new) < N \<and>
                 fetch_node c (1 + int (length new)) 250 (50 + 100 * (1 + int (length new))) = Inl e)"
    by auto
  have "1 + int (length new) = max 1 N"
  proof (rule ccontr)
    assume "1 + int (length new) \<noteq> max 1 N"
    with stop obtain e where "1 + int (length new) < N"
      and f: "fetch_node c (1 + int (length new)) 250 (50 + 100 * (1 + int (length new))) = Inl e"
      by blast
    with assms(4) have "state_read_ok c (1 + int (length new))"
      by simp
    from fetch_node_ok [OF this] f show False
      by (metis sum.distinct(1))
  qed
  with assms(2) have len: "int (length new) = N - 1"
    by simp
  from s' have ids: "map node_id (nodes s') = map node_id (nodes s) @ map node_id new"
    by simp
  then have "length (map node_id (nodes s')) = length (map node_id (nodes s) @ map node_id new)"
    by (rule arg_cong)
  with len have "length (nodes s') = length (nodes s) + nat (N - 1)"
    by simp
  moreover from fetched_node_ids [OF n] len ids
  have "map node_id (nodes s') = map node_id (nodes s) @ map int_toString [1..N - 1]"
    by simp
  ultimately show ?thesis
    using run by simp
qed

theorem node_count_witness:
  "length (nodes (fst (onInit client_example init))) = 2 \<and>
   map node_id (nodes (fst (onInit client_example init))) = [''1'', ''2'']"
proof -
  have 1: "read_stateIndex client_example = Inr 3" and 2: "(1::int) \<le> 3"
    and 3: "read_transitionIndex client_example = Inr 2"
    by (simp_all add: client_example_def)
  have 4: "\<forall>j\<in>{1..<3}. state_read_ok client_example j"
    by (auto simp: state_read_ok_def client_example_def js_index_def)
  from node_count [OF 1 2 3 4, of init] show ?thesis
    by (simp add: init_def upto_rec1 int_toString_def nat_toString.simps digit_char_numeral)
qed

text \<open>
  Claim C2, as amended. When both counters resolve, \<^verbatim>\<open>transitionIndex\<close> to \<open>M \<ge> 1\<close>,
  and every read of a state and of a transition below the counters succeeds, the run
  appends exactly \<open>M - 1\<close> edges; their ids are the integers \<open>1, \<dots>, M - 1\<close> in this
  order, and the source and the target of the edge of index \<open>j\<close> are the strings of
  elements 1 and 2 of the tuple read for \<open>j\<close>.
\<close>

theorem edge_count:
  assumes "read_stateIndex c = Inr N" and "\<forall>j\<in>{1..<N}. state_read_ok c j"
    and "read_transitionIndex c = Inr M" and "1 \<le> M"
    and "\<forall>j\<in>{1..<M}. transition_read_ok c j"
  shows "\<exists>es. edges (fst (onInit c s)) = edges s @ es \<and>
           length es = nat (M - 1) \<and>
           map edge_id es = [1..M - 1] \<and>
           list_all2 (\<lambda>j e. \<exists>t. read_transitions c j = Inr t \<and>
               js_toString (js_index t 1) = Inr (source e) \<and>
               js_toString (js_index t 2) = Inr (target e)) [1..M - 1] es"
proof -
  obtain s' r where run: "onInit c s = (s', r)"
    by (cases "onInit c s")
  with assms(1,3) have "project c N M (s\<lparr>fitViewCalled := True\<rparr>) = (s', r)"
    by (simp add: onInit_def)
  from project_result [OF this] obtain new es where
    n: "list_all2 (\<lambda>j nd. fetch_node c j 250 (50 + 100 * j) = Inr nd) [1..int (length new)] new"
    and e: "list_all2 (\<lambda>j e. fetch_edge c j = Inr e) [1..int (length es)] es"
    and s0: "edges s' = edges (s\<lparr>fitViewCalled := True\<rparr>) @ es"
    and d: "r = None \<and> 1 + int (length new) = max 1 N \<and> 1 + int (length es) = max 1 M
      \<or> (\<exists>e. r = Some e \<and>
           (1 + int (length new) < N \<and> es = [] \<and>
              fetch_node c (1 + int (length new)) 250 (50 + 100 * (1 + int (length new))) = Inl e
            \<or> 1 + int (length new) = max 1 N \<and> 1 + int (length es) < M \<and>
              fetch_edge c (1 + int (length es)) = Inl e))"
    by blast
  from d have stop: "1 + int (length es) = max 1 M
           \<or> (\<exists>e. 1 + int (length new) < N \<and>
                 fetch_node c (1 + int (length new)) 250 (50 + 100 * (1 + int (length new))) = Inl e)
           \<or> (\<exists>e. 1 + int (length es) < M \<and> fetch_edge c (1 + int (length es)) = Inl e)"
    by blast
  from s0 have s': "edges s' = edges s @ es"
    by simp
  have "1 + int (length es) = max 1 M"
  proof (rule ccontr)
    assume neq: "1 + int (length es) \<noteq> max 1 M"
    with stop consider
      (node) e where "1 + int (length new) < N"
        "fetch_node c (1 + int (length new)) 250 (50 + 100 * (1 + int (length new))) = Inl e"
      | (edge) e where "1 + int (length es) < M" "fetch_edge c (1 + int (length es)) = Inl e"
      by blast
    then show False
    proof cases
      case node
      with assms(2) have "state_read_ok c (1 + int (length new))"
        by simp
      from fetch_node_ok [OF this] node(2) show False
        by (metis sum.distinct(1))
    next
      case edge
      with assms(5) have "transition_read_ok c (1 + int (length es))"
        by simp
      from fetch_edge_ok [OF this] edge(2) show False
        by (metis sum.distinct(1))
    qed
  qed
  with assms(4) have len: "int (length es) = M - 1"
    by simp
  from s' have ed: "edges s' = edges s @ es" .
  from e have "list_all2 (\<lambda>j e. \<exists>t. read_transitions c j = Inr t \<and>
               js_toString (js_index t 1) = Inr (source e) \<and>
               js_toString (js_index t 2) = Inr (target e)) [1..int (length es)] es"
    by (rule list_all2_mono) (auto dest: fetch_edge_fields)
  with len fetched_edge_ids [OF e] ed run show ?thesis
    by (intro exI [of _ es]) simp
qed

theorem edge_count_witness:
  "\<exists>es. edges (fst (onInit client_example init)) = es \<and> length es = 1 \<and>
     map edge_id es = [1] \<and> map source es = [''1''] \<and> map target es = [''2'']"
proof -
  have 1: "read_stateIndex client_example = Inr 3"
    and 3: "read_transitionIndex client_example = Inr 2" and 4: "(1::int) \<le> 2"
    by (simp_all add: client_example_def)
  have 2: "\<forall>j\<in>{1..<3}. state_read_ok client_example j"
    by (auto simp: state_read_ok_def client_example_def js_index_def)
  have 5: "\<forall>j\<in>{1..<2}. transition_read_ok client_example j"
    by (auto simp: transition_read_ok_def client_example_def js_index_def)
  from edge_count [OF 1 2 3 4 5, of init] obtain es where
    "edges (fst (onInit client_example init)) = es" "length es = 1" "map edge_id es = [1]"
    "list_all2 (\<lambda>j e. \<exists>t. read_transitions client_example j = Inr t \<and>
               js_toString (js_index t 1) = Inr (source e) \<and>
               js_toString (js_index t 2) = Inr (target e)) [1] es"
    by (auto simp: init_def)
  then show ?thesis
    by (cases es) (auto simp: client_example_def js_index_def int_toString_def
        nat_toString.simps digit_char_numeral)
qed

text \<open>
  Claim C2 as stated gives the ids as \<open>1, \<dots>, M - 2\<close>. For \<open>client_example\<close> the counter
  is \<open>M = 2\<close>: the run has \<open>M - 1 = 1\<close> edge, its id is 1, and the list of the integers
  from 1 to \<open>M - 2 = 0\<close> is empty.
\<close>

theorem edge_ids_counterexample:
  "read_transitionIndex client_example = Inr 2 \<and>
   length (edges (fst (onInit client_example init))) = 2 - 1 \<and>
   map edge_id (edges (fst (onInit client_example init))) \<noteq> [1..2 - 2]"
  by (simp add: example_run) (simp add: client_example_def)

text \<open>
  Claim C3. With \<open>client_rejecting\<close> both counters resolve and the read of
  \<^verbatim>\<open>states(1)\<close> rejects. The run ends with that rejection, with no node and no edge,
  and yet \<^verbatim>\<open>fitView\<close> has been called: the promise \<^verbatim>\<open>onInit\<close> waits for is fulfilled
  as soon as \<^verbatim>\<open>stateIndex\<close> has resolved (\<open>fitView_after_stateIndex\<close>). The claim says
  that no such signal is given after a rejected read; its other parts hold
  (\<open>project_result\<close>, \<open>rejection_leaves_unclassified\<close>).
\<close>

theorem fitView_despite_rejection:
  "read_states client_rejecting 1 = Inl RpcError \<and>
   onInit client_rejecting init =
     (\<lparr>nodes = [], edges = [], store = [], fitViewCalled = True\<rparr>, Some RpcError)"
  by (simp add: onInit_def project_def client_rejecting_def init_def state_loop.simps flush_def)

text \<open>
  Claim C6. When the count of states is 0 or 1 the first loop leaves the state as it is
  and ends without an error, whatever the client; so does the second loop when the count
  of transitions is 0 or 1. \<^verbatim>\<open>adjustView\<close> changes nothing in a state without nodes
  (none in the array, none in the store), and the whole projection from the empty graph
  returns the empty graph and no error.
\<close>

theorem empty_counts:
  assumes "n = 0 \<or> n = 1" and "m = 0 \<or> m = 1"
  shows "state_loop c 1 n yPos xPos s = (s, None) \<and>
         transition_loop c 1 m s = (s, None) \<and>
         adjustView (s\<lparr>nodes := [], store := []\<rparr>) = s\<lparr>nodes := [], store := []\<rparr> \<and>
         project c n m init = (init, None)"
proof -
  from assms(1) have 1: "state_loop c 1 n yPos xPos s = (s, None)" for yPos xPos s
    by (auto simp: state_loop.simps [of c 1])
  from assms(2) have 2: "transition_loop c 1 m s = (s, None)" for s
    by (auto simp: transition_loop.simps [of c 1])
  have 3: "adjustView (s\<lparr>nodes := [], store := []\<rparr>) = s\<lparr>nodes := [], store := []\<rparr>" for s :: app
    by (simp add: adjustView_def)
  have "flush (adjustView init) = init"
    by (simp add: adjustView_def flush_def init_def)
  with 1 2 3 show ?thesis
    by (simp add: project_def)
qed

theorem empty_counts_witness:
  "state_loop client_empty 1 1 50 250 init = (init, None) \<and>
   transition_loop client_empty 1 0 init = (init, None) \<and>
   adjustView init = init \<and>
   onInit client_empty init = (init\<lparr>fitViewCalled := True\<rparr>, None)"
proof -
  have n: "(1::int) = 0 \<or> (1::int) = 1" and m: "(0::int) = 0 \<or> (0::int) = 1"
    by simp_all
  from empty_counts [OF n m, of client_empty 50 250 init] show ?thesis
    by (simp add: init_def onInit_def client_empty_def project_def
        state_loop.simps transition_loop.simps adjustView_def flush_def)
qed

text \<open>
  Claim C7. In the graph of every run, complete or not, the position of the node at
  place \<open>k\<close> of the array (counted from 0) has \<open>x = 250\<close> and \<open>y = 150 + 100 * k\<close>: it
  depends on the order of the fetches only.
\<close>

theorem placement:
  "map node_position (nodes (fst (onInit c init))) =
     map (\<lambda>k. \<lparr>pos_x = 250, pos_y = 150 + 100 * int k\<rparr>) [0..<length (nodes (fst (onInit c init)))]"
proof -
  from onInit_graph [of c] obtain new where
    n: "list_all2 (\<lambda>j nd. fetch_node c j 250 (50 + 100 * j) = Inr nd) [1..int (length new)] new"
    and p: "map node_position (nodes (fst (onInit c init))) = map node_position new"
    by blast
  from p have len: "length (nodes (fst (onInit c init))) = length new"
    by (rule map_eq_imp_length_eq)
  from fetched_node_ids [OF n]
  have "map node_position new = map (\<lambda>j. \<lparr>pos_x = 250, pos_y = 50 + 100 * j\<rparr>) [1..int (length new)]"
    by simp
  also have "\<dots> = map (\<lambda>k. \<lparr>pos_x = 250, pos_y = 150 + 100 * int k\<rparr>) [0..<length new]"
    by (simp add: upto_from_1 comp_def algebra_simps)
  finally show ?thesis
    by (simp add: p len)
qed

text \<open>
  Claim C8, as amended. Every edge in the graph of a run was built from the tuple read
  for its id, which is at least 1: its label is element 0 of the tuple as it is, its
  source and target are the strings that \<^verbatim>\<open>toString\<close> gives for elements 1 and 2, its
  \<^verbatim>\<open>animated\<close> flag is the truthiness of element 3, and its marker is the closed arrow.
\<close>

theorem edge_fields:
  assumes "e \<in> set (edges (fst (onInit c init)))"
  shows "\<exists>transition. read_transitions c (edge_id e) = Inr transition \<and>
           1 \<le> edge_id e \<and>
           edge_label e = js_index transition 0 \<and>
           js_toString (js_index transition 1) = Inr (source e) \<and>
           js_toString (js_index transition 2) = Inr (target e) \<and>
           animated e = js_Boolean (js_index transition 3) \<and>
           markerEnd e = ArrowClosed"
proof -
  from onInit_graph [of c] obtain es where
    all: "list_all2 (\<lambda>j e. fetch_edge c j = Inr e) [1..int (length es)] es"
    and es: "edges (fst (onInit c init)) = es"
    by blast
  from assms es have "e \<in> set es"
    by simp
  from list_all2_in_set [OF all this] obtain j where
    j: "j \<in> set [1..int (length es)]" and f: "fetch_edge c j = Inr e"
    by blast
  from fetch_edge_fields [OF f] j show ?thesis
    by auto
qed

theorem edge_fields_witness:
  "\<lparr>edge_id = 1, edge_label = JStr ''go'', source = ''1'', target = ''2'',
      animated = True, markerEnd = ArrowClosed\<rparr> \<in> set (edges (fst (onInit client_example init))) \<and>
   read_transitions client_example 1 = Inr [JStr ''go'', JBigInt 1, JBigInt 2, JBool True] \<and>
   js_toString (JBigInt 1) = Inr ''1'' \<and> js_toString (JBigInt 2) = Inr ''2'' \<and>
   js_Boolean (JBool True) = True"
proof -
  let ?e = "\<lparr>edge_id = 1, edge_label = JStr ''go'', source = ''1'', target = ''2'',
      animated = True, markerEnd = ArrowClosed\<rparr>"
  have mem: "?e \<in> set (edges (fst (onInit client_example init)))"
    by (simp add: example_run)
  from edge_fields [OF mem] show ?thesis
    using mem by (auto simp: client_example_def js_index_def)
qed

text \<open>
  Claim C8 as stated has the source and the target equal to elements 1 and 2 of the
  tuple, which are integers. For the tuple \<^verbatim>\<open>("go", 1n, 2n, true)\<close> the edge built has
  the strings \<^verbatim>\<open>"1"\<close> and \<^verbatim>\<open>"2"\<close>, which are not the values \<^verbatim>\<open>1n\<close> and \<^verbatim>\<open>2n\<close> of the
  tuple.
\<close>

theorem edge_source_counterexample:
  "make_edge 1 [JStr ''go'', JBigInt 1, JBigInt 2, JBool True] =
     Inr \<lparr>edge_id = 1, edge_label = JStr ''go'', source = ''1'', target = ''2'',
          animated = True, markerEnd = ArrowClosed\<rparr> \<and>
   JStr ''1'' \<noteq> js_index [JStr ''go'', JBigInt 1, JBigInt 2, JBool True] 1 \<and>
   JStr ''2'' \<noteq> js_index [JStr ''go'', JBigInt 1, JBigInt 2, JBool True] 2"
  by (simp add: make_edge_def js_index_def int_toString_def nat_toString.simps digit_char_numeral)

text \<open>
  Claim C9. In the graph of every run, complete or not, the ids of the nodes are
  pairwise distinct, the ids of the edges are pairwise distinct, and the ids of the
  nodes are the strings of \<open>1, 2, \<dots>\<close> in the order of the array. Nothing relates the
  source or the target of an edge to the nodes: the run of \<open>client_dangling\<close> has an
  edge whose source and target are the ids of no node.
\<close>

theorem unique_ids:
  "distinct (map node_id (nodes (fst (onInit c init)))) \<and>
   distinct (map edge_id (edges (fst (onInit c init)))) \<and>
   map node_id (nodes (fst (onInit c init))) =
     map int_toString [1..int (length (nodes (fst (onInit c init))))] \<and>
   (\<exists>e\<in>set (edges (fst (onInit client_dangling init))).
      source e \<notin> set (map node_id (nodes (fst (onInit client_dangling init)))) \<and>
      target e \<notin> set (map node_id (nodes (fst (onInit client_dangling init)))))"
proof -
  from onInit_graph [of c] obtain new es where
    n: "list_all2 (\<lambda>j nd. fetch_node c j 250 (50 + 100 * j) = Inr nd) [1..int (length new)] new"
    and e: "list_all2 (\<lambda>j e. fetch_edge c j = Inr e) [1..int (length es)] es"
    and i: "map node_id (nodes (fst (onInit c init))) = map node_id new"
    and es: "edges (fst (onInit c init)) = es"
    by blast
  from i have len: "length (nodes (fst (onInit c init))) = length new"
    by (rule map_eq_imp_length_eq)
  from fetched_node_ids [OF n] i
  have ids: "map node_id (nodes (fst (onInit c init))) = map int_toString [1..int (length new)]"
    by simp
  have "distinct (map node_id (nodes (fst (onInit c init))))"
    by (simp only: ids distinct_ids)
  moreover have "distinct (map edge_id (edges (fst (onInit c init))))"
    by (simp add: es fetched_edge_ids [OF e])
  moreover have "\<exists>e\<in>set (edges (fst (onInit client_dangling init))).
      source e \<notin> set (map node_id (nodes (fst (onInit client_dangling init)))) \<and>
      target e \<notin> set (map node_id (nodes (fst (onInit client_dangling init))))"
    by (simp add: dangling_run)
  ultimately show ?thesis
    using ids len by simp
qed

subsection \<open>The classification\<close>

text \<open>
  What \<^verbatim>\<open>adjustView\<close> does for node 1 when the store holds it: in a store with
  distinct ids, the node of id \<^verbatim>\<open>"1"\<close> gets the role \<open>Input\<close> if some edge has \<^verbatim>\<open>"1"\<close>
  as its source, and \<open>Output\<close> if none has, provided the array holds a node of that id.
\<close>

lemma role_of_node_1_in_store:
  assumes "distinct (map node_id (store s))"
    and "n \<in> set (store (adjustView s))"
    and "node_id n = ''1''"
    and "\<exists>v\<in>set (nodes s). node_id v = ''1''"
  shows "node_type n = (if \<exists>e\<in>set (edges s). source e = ''1'' then Input else Output)"
proof -
  let ?M = "mark (edges s) (nodes s) [''1'' \<mapsto> Input]"
  have f: "(find (\<lambda>e. source e = ''1'') (edges s) = None) = (\<not> (\<exists>e\<in>set (edges s). source e = ''1''))"
    by (auto simp: find_None_iff)
  from assms(4) have M: "?M (node_id n) = Some (if \<exists>e\<in>set (edges s). source e = ''1'' then Input else Output)"
    by (simp add: mark_apply assms(3) f)
  from assms(2) have "n \<in> set (assign ?M {} (store s))"
    by (simp add: store_adjustView)
  from assign_distinct [OF assms(1) _ this M] show ?thesis
    by simp
qed

text \<open>
  Claim C4. With \<open>client_single\<close> the run fetches node 1 and no edge, so node 1 has no
  outgoing edge, and the claim gives it the role \<open>Output\<close>. \<^verbatim>\<open>adjustView\<close> runs in the
  tick of the \<^verbatim>\<open>push\<close> of node 1 (no read of a transition is awaited in between), when
  the store does not hold the node yet: both \<^verbatim>\<open>updateNode\<close> calls find nothing, and the
  node enters the store afterwards with the default role.
\<close>

theorem node_1_stays_default:
  "onInit client_single init =
     (\<lparr>nodes =
         [\<lparr>node_id = ''1'', data_label = ''A'', node_position = \<lparr>pos_x = 250, pos_y = 150\<rparr>,
           node_class = ''light'', node_type = Default\<rparr>],
       edges = [],
       store =
         [\<lparr>node_id = ''1'', data_label = ''A'', node_position = \<lparr>pos_x = 250, pos_y = 150\<rparr>,
           node_class = ''light'', node_type = Default\<rparr>],
       fitViewCalled = True\<rparr>, None)"
  by (simp add: onInit_def project_def client_single_def init_def state_loop.simps
      transition_loop.simps make_node_def js_index_def int_toString_def
      nat_toString.simps digit_char_numeral adjustView_def visit_def flush_def)


text \<open>
  Claim C10. For every graph, \<^verbatim>\<open>adjustView\<close> leaves every node as it was up to its
  role: the ids, labels and positions, the length and the order are the same, in the
  array (which it does not write at all) and in the store, and the edges are unchanged.
\<close>

theorem classification_frame:
  "map (\<lambda>n. n\<lparr>node_type := Default\<rparr>) (nodes (adjustView s)) =
     map (\<lambda>n. n\<lparr>node_type := Default\<rparr>) (nodes s) \<and>
   map node_id (nodes (adjustView s)) = map node_id (nodes s) \<and>
   map data_label (nodes (adjustView s)) = map data_label (nodes s) \<and>
   map node_position (nodes (adjustView s)) = map node_position (nodes s) \<and>
   length (nodes (adjustView s)) = length (nodes s) \<and>
   edges (adjustView s) = edges s \<and>
   nodes (adjustView s) = nodes s \<and>
   map (\<lambda>n. n\<lparr>node_type := Default\<rparr>) (store (adjustView s)) =
     map (\<lambda>n. n\<lparr>node_type := Default\<rparr>) (store s) \<and>
   map node_id (store (adjustView s)) = map node_id (store s) \<and>
   map data_label (store (adjustView s)) = map data_label (store s) \<and>
   map node_position (store (adjustView s)) = map node_position (store s) \<and>
   length (store (adjustView s)) = length (store s)"
proof -
  let ?erase = "\<lambda>n. n\<lparr>node_type := Default\<rparr>"
  have fr: "map ?erase (store (adjustView s)) = map ?erase (store s)"
    by (rule adjustView_frame)
  from fr have "map node_id (map ?erase (store (adjustView s))) = map node_id (map ?erase (store s))"
    by (rule arg_cong)
  then have ids: "map node_id (store (adjustView s)) = map node_id (store s)"
    by (simp add: comp_def)
  from fr have "map data_label (map ?erase (store (adjustView s))) = map data_label (map ?erase (store s))"
    by (rule arg_cong)
  then have lb: "map data_label (store (adjustView s)) = map data_label (store s)"
    by (simp add: comp_def)
  from fr have "map node_position (map ?erase (store (adjustView s))) = map node_position (map ?erase (store s))"
    by (rule arg_cong)
  then have ps: "map node_position (store (adjustView s)) = map node_position (store s)"
    by (simp add: comp_def)
  from fr have len: "length (store (adjustView s)) = length (store s)"
    by (rule map_eq_imp_length_eq)
  from fr ids lb ps len show ?thesis
    by (simp add: adjustView_frame)
qed

end
